theory Spec2Isabelle
  imports Main
begin

section \<open>Python values\<close>

text \<open>
  WinToTalk.py is dynamically typed: whatever \<^verbatim>\<open>json.loads\<close> returns flows into
  \<^verbatim>\<open>process_message\<close>, \<^verbatim>\<open>speak\<close>, \<^verbatim>\<open>rate_to_sapi\<close> and \<^verbatim>\<open>select_voice\<close>. The values
  of the model are therefore the values a JSON document decodes to. Every exception
  the program can raise on them is a value of \<open>error\<close>; all of them are subclasses of
  Python's \<^verbatim>\<open>Exception\<close>.
\<close>

datatype error =
  JSONDecodeError | AttributeError | TypeError | ValueError | OverflowError
  | KeyError | ZeroDivisionError | UnicodeEncodeError

text \<open>
  A Python \<^verbatim>\<open>float\<close> is an IEEE-754 double: \<open>Finite m e\<close> stands for \<open>m * 2 ^ e\<close>,
  the other three for the infinities and not-a-number (\<^verbatim>\<open>json.loads\<close> accepts
  \<^verbatim>\<open>Infinity\<close>, \<^verbatim>\<open>-Infinity\<close> and \<^verbatim>\<open>NaN\<close>). The sign of zero is not kept: nothing in
  the program observes it.
\<close>

datatype pyfloat = Finite int int | PosInf | NegInf | NaN

text \<open>
  A \<^verbatim>\<open>dict\<close> decoded from a JSON object is kept as the list of its items; a key is
  looked up with \<open>map_of\<close>.
\<close>

datatype pyval =
  PNone | PBool bool | PInt int | PFloat pyfloat | PStr string
  | PList "pyval list" | PDict "(string \<times> pyval) list"

subsection \<open>Division of integers and conversion back\<close>

text \<open>
  \<^verbatim>\<open>diff / 20\<close> is Python's true division: the quotient of two integers, correctly
  rounded to the nearest double (53 bits of mantissa, ties to the even mantissa,
  exponent at least \<open>-1074\<close>); a quotient that rounds to \<open>2 ^ 1024\<close> or more raises
  \<^verbatim>\<open>OverflowError\<close>. \<^verbatim>\<open>int(x)\<close> truncates a finite double towards zero and raises on
  an infinity or a NaN.
\<close>

fun bit_length :: "nat \<Rightarrow> nat" where
  "bit_length n = (if n = 0 then 0 else Suc (bit_length (n div 2)))"

declare bit_length.simps [simp del]

definition round_half_even :: "nat \<Rightarrow> nat \<Rightarrow> nat" where
  "round_half_even n d =
     (let q = n div d; r = n mod d
      in if 2 * r < d then q else if d < 2 * r then q + 1
         else if even q then q else q + 1)"

definition floor_log2 :: "nat \<Rightarrow> nat \<Rightarrow> int" where
  "floor_log2 n d =
     (let k = int (bit_length n) - int (bit_length d)
      in if d * 2 ^ nat k \<le> n * 2 ^ nat (- k) then k else k - 1)"

definition double_exponent :: "nat \<Rightarrow> nat \<Rightarrow> int" where
  "double_exponent n d = max (floor_log2 n d - 52) (- 1074)"

definition double_mantissa :: "nat \<Rightarrow> nat \<Rightarrow> nat" where
  "double_mantissa n d =
     (let e = double_exponent n d
      in if 0 \<le> e then round_half_even n (d * 2 ^ nat e)
         else round_half_even (n * 2 ^ nat (- e)) d)"

definition nearest_double :: "int \<Rightarrow> int \<Rightarrow> pyfloat" where
  "nearest_double a b =
     (let n = nat \<bar>a\<bar>; d = nat \<bar>b\<bar>;
          e = double_exponent n d; m = double_mantissa n d
      in if n = 0 then Finite 0 0
         else if 0 \<le> e \<and> 2 ^ 1024 \<le> m * 2 ^ nat e
           then (if 0 < sgn a * sgn b then PosInf else NegInf)
         else Finite (sgn a * sgn b * int m) e)"

definition int_truediv :: "int \<Rightarrow> int \<Rightarrow> error + pyfloat" where
  "int_truediv a b =
     (if b = 0 then Inl ZeroDivisionError
      else case nearest_double a b of
             PosInf \<Rightarrow> Inl OverflowError
           | NegInf \<Rightarrow> Inl OverflowError
           | x \<Rightarrow> Inr x)"

fun float_sub_int :: "pyfloat \<Rightarrow> int \<Rightarrow> pyfloat" where
  "float_sub_int (Finite m e) k =
     (if 0 \<le> e then nearest_double (m * 2 ^ nat e - k) 1
      else nearest_double (m - k * 2 ^ nat (- e)) (2 ^ nat (- e)))"
| "float_sub_int x k = x"

fun float_quotient :: "pyfloat \<Rightarrow> int \<Rightarrow> pyfloat" where
  "float_quotient (Finite m e) k =
     (if 0 \<le> e then nearest_double (m * 2 ^ nat e) k
      else nearest_double m (k * 2 ^ nat (- e)))"
| "float_quotient PosInf k = (if 0 < k then PosInf else NegInf)"
| "float_quotient NegInf k = (if 0 < k then NegInf else PosInf)"
| "float_quotient NaN k = NaN"

definition float_div_int :: "pyfloat \<Rightarrow> int \<Rightarrow> error + pyfloat" where
  "float_div_int x k = (if k = 0 then Inl ZeroDivisionError else Inr (float_quotient x k))"

fun int_of_float :: "pyfloat \<Rightarrow> error + int" where
  "int_of_float (Finite m e) =
     Inr (if 0 \<le> e then m * 2 ^ nat e else sgn m * (\<bar>m\<bar> div 2 ^ nat (- e)))"
| "int_of_float PosInf = Inl OverflowError"
| "int_of_float NegInf = Inl OverflowError"
| "int_of_float NaN = Inl ValueError"

text \<open>\<^verbatim>\<open>x - k\<close> and \<^verbatim>\<open>x / k\<close> for an integer constant \<open>k\<close>; \<^verbatim>\<open>bool\<close> is a subclass of \<^verbatim>\<open>int\<close>.\<close>

fun py_sub :: "pyval \<Rightarrow> int \<Rightarrow> error + pyval" where
  "py_sub (PInt i) k = Inr (PInt (i - k))"
| "py_sub (PBool b) k = Inr (PInt ((if b then 1 else 0) - k))"
| "py_sub (PFloat x) k = Inr (PFloat (float_sub_int x k))"
| "py_sub v k = Inl TypeError"

fun py_truediv :: "pyval \<Rightarrow> int \<Rightarrow> error + pyfloat" where
  "py_truediv (PInt i) k = int_truediv i k"
| "py_truediv (PBool b) k = int_truediv (if b then 1 else 0) k"
| "py_truediv (PFloat x) k = float_div_int x k"
| "py_truediv v k = Inl TypeError"

subsection \<open>Strings\<close>

text \<open>
  A \<^verbatim>\<open>str\<close> is kept as its UTF-8 bytes. The program compares lower-cased strings with
  ASCII words only, so \<open>lower\<close> has to be exact on the ASCII letters of its result:
  it maps \<open>A\<close>..\<open>Z\<close> to \<open>a\<close>..\<open>z\<close>, and the only two other code points whose
  \<^verbatim>\<open>str.lower()\<close> contains an ASCII letter, U+0130 (bytes C4 B0, to \<open>i\<close> and U+0307)
  and U+212A (bytes E2 84 AA, to \<open>k\<close>). Every other byte is left as it is.
\<close>

definition lower_char :: "char \<Rightarrow> char" where
  "lower_char c =
     (case map_of (zip ''ABCDEFGHIJKLMNOPQRSTUVWXYZ'' ''abcdefghijklmnopqrstuvwxyz'') c of
        Some l \<Rightarrow> l | None \<Rightarrow> c)"

function lower :: "string \<Rightarrow> string" where
  "lower [] = []"
| "lower (c # s) =
     (if c = CHR 0xC4 \<and> take 1 s = [CHR 0xB0]
        then CHR ''i'' # CHR 0xCC # CHR 0x87 # lower (drop 1 s)
      else if c = CHR 0xE2 \<and> take 2 s = [CHR 0x84, CHR 0xAA]
        then CHR ''k'' # lower (drop 2 s)
      else lower_char c # lower s)"
  by pat_completeness auto
termination
  by (relation "measure length") auto

text \<open>\<^verbatim>\<open>s.startswith(p)\<close> and \<^verbatim>\<open>needle in hay\<close>.\<close>

fun startswith :: "string \<Rightarrow> string \<Rightarrow> bool" where
  "startswith s [] = True"
| "startswith [] (p # ps) = False"
| "startswith (c # s) (p # ps) = (c = p \<and> startswith s ps)"

fun contains :: "string \<Rightarrow> string \<Rightarrow> bool" where
  "contains needle [] = (needle = [])"
| "contains needle (h # hay) = (startswith (h # hay) needle \<or> contains needle hay)"

text \<open>Method calls on a value that may not have the method.\<close>

fun py_lower :: "pyval \<Rightarrow> error + string" where
  "py_lower (PStr s) = Inr (lower s)"
| "py_lower v = Inl AttributeError"

fun py_get :: "pyval \<Rightarrow> string \<Rightarrow> pyval \<Rightarrow> error + pyval" where
  "py_get (PDict items) k dflt =
     Inr (case map_of items k of Some v \<Rightarrow> v | None \<Rightarrow> dflt)"
| "py_get v k dflt = Inl AttributeError"

section \<open>Voice configuration\<close>

definition EN_NEUTRAL :: string where "EN_NEUTRAL = ''Microsoft Catherine''"
definition EN_FEMALE :: string where "EN_FEMALE = ''Microsoft Susan''"
definition EN_MALE :: string where "EN_MALE = ''Microsoft Richard''"
definition DE_NEUTRAL :: string where "DE_NEUTRAL = ''Microsoft Hedda Desktop''"
definition DE_FEMALE :: string where "DE_FEMALE = ''Microsoft Katja''"
definition DE_MALE :: string where "DE_MALE = ''Microsoft Karsten''"

definition DEFAULT_RATE :: int where "DEFAULT_RATE = 300"
definition DEFAULT_VOLUME :: int where "DEFAULT_VOLUME = 100"

definition VOICE_MAP :: "(string \<times> string) list" where
  "VOICE_MAP =
     [(''EN_NEUTRAL'', EN_NEUTRAL), (''EN_FEMALE'', EN_FEMALE), (''EN_MALE'', EN_MALE),
      (''DE_NEUTRAL'', DE_NEUTRAL), (''DE_FEMALE'', DE_FEMALE), (''DE_MALE'', DE_MALE)]"

section \<open>The rate conversion\<close>

text \<open>
  \<^verbatim>\<open>
  def rate_to_sapi(rate_wpm: int) -> int:
      baseline = 200  # SAPI standard
      diff = rate_wpm - baseline
      sapi_rate = int(diff / 20)  # 20 WPM = 1 SAPI rate step
      return max(-10, min(10, sapi_rate))
  \<close>
  The annotation is not enforced: the argument is the \<^verbatim>\<open>Rate\<close> of the message,
  whatever its type.
\<close>

definition rate_to_sapi :: "pyval \<Rightarrow> error + int" where
  "rate_to_sapi rate_wpm =
     (let baseline = 200
      in case py_sub rate_wpm baseline of
           Inl err \<Rightarrow> Inl err
         | Inr diff \<Rightarrow>
             (case py_truediv diff 20 of
                Inl err \<Rightarrow> Inl err
              | Inr ratio \<Rightarrow>
                  (case int_of_float ratio of
                     Inl err \<Rightarrow> Inl err
                   | Inr sapi_rate \<Rightarrow> Inr (max (- 10) (min 10 sapi_rate)))))"

section \<open>The engine and the state of the process\<close>

text \<open>
  \<^verbatim>\<open>SpVoice\<close> is the SAPI COM object, an external collaborator. The model keeps what
  the program can do to it: the three properties it assigns, the voices
  \<^verbatim>\<open>GetVoices()\<close> enumerates (each stands for its \<^verbatim>\<open>GetDescription()\<close>), and the list
  of the calls that changed it. Reading the voices is not recorded as a call.

  The engine's side of the contract is the list \<open>speaking\<close> of the utterances it
  has accepted and not finished: \<^verbatim>\<open>Speak(text, 1)\<close> (asynchronous) returns at once and
  appends the text, \<^verbatim>\<open>Speak("", 3)\<close> (asynchronous, purge before speak) drops them all,
  and an empty text produces no utterance. The engine is idle when the list is
  empty. What the COM layer makes of a text that is not a string is outside the
  program; the call is recorded with the argument as passed.

  \<open>printed\<close> is the standard output, one entry per call of \<^verbatim>\<open>print\<close> that went
  through, without the time stamps. \<open>encodable\<close> is the encoding of the standard
  output: the values, beyond those written in ASCII alone, whose text it can
  encode. \<open>threads\<close> holds the threads that \<^verbatim>\<open>speak\<close> has started and whose
  \<^verbatim>\<open>run\<close> has not yet taken \<^verbatim>\<open>voice_lock\<close>, each with the arguments its closure
  captured.
\<close>

datatype engine_call = SetVolume int | SetRate int | SetVoice string | Speak pyval int

datatype line =
  SelectedVoice string string
  | VoiceNotFound string
  | SayHeader
  | Labelled string pyval
  | Blank
  | Cancel
  | MessageError error

datatype thread = Thread pyval pyval pyval pyval int

record world =
  Volume :: int
  Rate :: int
  Voice :: string
  GetVoices :: "string list"
  speaking :: "pyval list"
  calls :: "engine_call list"
  printed :: "line list"
  encodable :: "pyval \<Rightarrow> bool"
  threads :: "thread list"
  current_speak_thread :: "thread option"

definition set_Volume :: "int \<Rightarrow> world \<Rightarrow> world" where
  "set_Volume v w = w\<lparr>Volume := v, calls := calls w @ [SetVolume v]\<rparr>"

definition set_Rate :: "int \<Rightarrow> world \<Rightarrow> world" where
  "set_Rate r w = w\<lparr>Rate := r, calls := calls w @ [SetRate r]\<rparr>"

definition set_Voice :: "string \<Rightarrow> world \<Rightarrow> world" where
  "set_Voice v w = w\<lparr>Voice := v, calls := calls w @ [SetVoice v]\<rparr>"

definition SpVoice_Speak :: "pyval \<Rightarrow> int \<Rightarrow> world \<Rightarrow> world" where
  "SpVoice_Speak text flags w =
     (let kept = (if flags div 2 mod 2 = 1 then [] else speaking w)
      in w\<lparr>speaking := (if text = PStr [] then kept else kept @ [text]),
            calls := calls w @ [Speak text flags]\<rparr>)"

definition print :: "line \<Rightarrow> world \<Rightarrow> world" where
  "print ln w = w\<lparr>printed := printed w @ [ln]\<rparr>"

text \<open>
  \<^verbatim>\<open>print(label, value)\<close> writes the text of the value to the standard output and
  raises \<^verbatim>\<open>UnicodeEncodeError\<close> when the encoding of the output cannot encode it (a
  lone surrogate on a UTF-8 output, a Cyrillic letter on a cp1252 output). The
  encodings in use all contain ASCII, so a value whose strings are ASCII all
  through always prints; the texts the program composes itself (the voice
  constants, the messages of its exceptions) are of that kind, so only the fields
  of a message can fail to print. \<open>print_fields\<close> is a run of such calls: it stops
  at the first that fails, with the earlier ones printed.
\<close>

definition ascii_char :: "char \<Rightarrow> bool" where
  "ascii_char c = (of_char c < (128 :: nat))"

fun ascii_only :: "pyval \<Rightarrow> bool" where
  "ascii_only (PStr s) = list_all ascii_char s"
| "ascii_only (PList vs) = list_all ascii_only vs"
| "ascii_only (PDict items) =
     (list_all (list_all ascii_char) (map fst items) \<and>
      list_all ascii_only (map snd items))"
| "ascii_only v = True"

definition can_print :: "world \<Rightarrow> pyval \<Rightarrow> bool" where
  "can_print w v = (ascii_only v \<or> encodable w v)"

fun print_fields :: "(string \<times> pyval) list \<Rightarrow> world \<Rightarrow> (error + unit) \<times> world" where
  "print_fields [] w = (Inr (), w)"
| "print_fields ((label, v) # rest) w =
     (if can_print w v then print_fields rest (print (Labelled label v) w)
      else (Inl UnicodeEncodeError, w))"

section \<open>Voice selection\<close>

text \<open>
  \<^verbatim>\<open>
  def select_voice(language, gender):
      if language.lower().startswith("german"):
          if gender.lower() == "male":
              chosen = "DE_MALE"
          elif gender.lower() == "female":
              chosen = "DE_FEMALE"
          else:
              chosen = "DE_NEUTRAL"
      else:
          ... the same with "EN_MALE", "EN_FEMALE", "EN_NEUTRAL"
      voice_name = VOICE_MAP[chosen]
      for v in SpVoice.GetVoices():
          if voice_name.lower() in v.GetDescription().lower():
              SpVoice.Voice = v
              print(f"Selected voice constant: {chosen} -> {voice_name}")
              return chosen, voice_name
      print(f"Warning: voice '{voice_name}' not found, using default")
      return chosen, "Default system voice"
  \<close>
  \<open>find_voice\<close> is the \<^verbatim>\<open>for\<close> loop: the first enumerated voice that matches.
\<close>

fun find_voice :: "string \<Rightarrow> string list \<Rightarrow> string option" where
  "find_voice voice_name [] = None"
| "find_voice voice_name (v # vs) =
     (if contains (lower voice_name) (lower v) then Some v
      else find_voice voice_name vs)"

definition select_voice ::
  "pyval \<Rightarrow> pyval \<Rightarrow> world \<Rightarrow> (error + string \<times> string) \<times> world" where
  "select_voice language gender w =
     (case py_lower language of
        Inl err \<Rightarrow> (Inl err, w)
      | Inr l \<Rightarrow>
          (case py_lower gender of
             Inl err \<Rightarrow> (Inl err, w)
           | Inr g \<Rightarrow>
               (let chosen =
                      (if startswith l ''german''
                       then (if g = ''male'' then ''DE_MALE''
                             else if g = ''female'' then ''DE_FEMALE''
                             else ''DE_NEUTRAL'')
                       else (if g = ''male'' then ''EN_MALE''
                             else if g = ''female'' then ''EN_FEMALE''
                             else ''EN_NEUTRAL''))
                in case map_of VOICE_MAP chosen of
                     None \<Rightarrow> (Inl KeyError, w)
                   | Some voice_name \<Rightarrow>
                       (case find_voice voice_name (GetVoices w) of
                          Some v \<Rightarrow>
                            (Inr (chosen, voice_name),
                             print (SelectedVoice chosen voice_name) (set_Voice v w))
                        | None \<Rightarrow>
                            (Inr (chosen, ''Default system voice''),
                             print (VoiceNotFound voice_name) w)))))"

section \<open>Speaking and cancelling\<close>

text \<open>
  \<^verbatim>\<open>
  def cancel_speech():
      with voice_lock:
          SpVoice.Speak("", 3)  # 3 = SVSFPurgeBeforeSpeak
  \<close>
\<close>

definition cancel_speech :: "world \<Rightarrow> world" where
  "cancel_speech w = SpVoice_Speak (PStr []) 3 w"

text \<open>
  \<^verbatim>\<open>
  def speak(text, language="English", gender="None", rate=DEFAULT_RATE,
            volume=DEFAULT_VOLUME):
      global current_speak_thread
      def run():
          with voice_lock:
              SpVoice.Volume = max(0, min(100, volume))
              SpVoice.Rate = rate_to_sapi(rate)
              select_voice(language, gender)
              SpVoice.Speak(text, 1)  # 1 = SVSFlagsAsync
      # stop previous speech
      cancel_speech()
      current_speak_thread = threading.Thread(target=run, daemon=True)
      current_speak_thread.start()
  \<close>
  \<open>run\<close> is the body of the thread, all of it under \<^verbatim>\<open>voice_lock\<close>. An exception
  ends the thread where it is raised; what the engine was told before stays told.
\<close>

fun run :: "thread \<Rightarrow> world \<Rightarrow> (error + unit) \<times> world" where
  "run (Thread text language gender rate volume) w =
     (let w1 = set_Volume (max 0 (min 100 volume)) w
      in case rate_to_sapi rate of
           Inl err \<Rightarrow> (Inl err, w1)
         | Inr r \<Rightarrow>
             (case select_voice language gender (set_Rate r w1) of
                (Inl err, w3) \<Rightarrow> (Inl err, w3)
              | (Inr selected, w3) \<Rightarrow> (Inr (), SpVoice_Speak text 1 w3)))"

text \<open>
  \<^verbatim>\<open>speak\<close> stops the previous speech itself and returns as soon as the thread is
  started: the thread's \<^verbatim>\<open>run\<close> comes later.
\<close>

definition speak :: "pyval \<Rightarrow> pyval \<Rightarrow> pyval \<Rightarrow> pyval \<Rightarrow> int \<Rightarrow> world \<Rightarrow> world" where
  "speak text language gender rate volume w =
     (let w1 = cancel_speech w; t = Thread text language gender rate volume
      in w1\<lparr>threads := threads w1 @ [t], current_speak_thread := Some t\<rparr>)"

section \<open>Message handling\<close>

text \<open>
  \<^verbatim>\<open>
  async def process_message(msg):
      try:
          data = json.loads(msg)
          msg_type = data.get("Type", "").lower()
          if msg_type == "say":
              payload = data.get("Payload", "")
              language = data.get("Language", "English")
              voice_info = data.get("Voice", {})
              gender = voice_info.get("Name", "None")
              rate = data.get("Rate", DEFAULT_RATE)
              speaker = data.get("Speaker", "Unknown")
              print(datetime.now(), "Say")
              print("Language:", language)
              print("Gender:", gender)
              print("Speaker:", speaker)
              print("Rate:", rate)
              print("Text:", payload)
              print("")
              speak(payload, language, gender, rate)
          elif msg_type == "cancel":
              print(datetime.now(), "Cancel")
              cancel_speech()
      except Exception as e:
          print(f"Message error: {e}")
  \<close>
  The argument of the handler is what \<^verbatim>\<open>json.loads(msg)\<close> made of the message: the
  decoded value, or the exception it raised. \<open>process_message_try\<close> is the body of
  the \<^verbatim>\<open>try\<close>, \<open>process_message\<close> the whole function with its \<^verbatim>\<open>except Exception\<close>.
  The function has no \<^verbatim>\<open>await\<close>: the receive loop runs it from start to end.
  \<open>announce\<close> is the seven calls of \<^verbatim>\<open>print\<close> of the \<^verbatim>\<open>say\<close> branch. They are inside
  the \<^verbatim>\<open>try\<close> and before \<^verbatim>\<open>speak\<close>: a field that the output cannot encode ends the
  handling there, with nothing sent to the engine.
\<close>

definition announce ::
  "pyval \<Rightarrow> pyval \<Rightarrow> pyval \<Rightarrow> pyval \<Rightarrow> pyval \<Rightarrow> world \<Rightarrow> (error + unit) \<times> world" where
  "announce language gender speaker rate payload w =
     (case print_fields
             [(''Language:'', language), (''Gender:'', gender), (''Speaker:'', speaker),
              (''Rate:'', rate), (''Text:'', payload)]
             (print SayHeader w) of
        (Inl err, w') \<Rightarrow> (Inl err, w')
      | (Inr done, w') \<Rightarrow> (Inr (), print Blank w'))"

definition process_message_try :: "error + pyval \<Rightarrow> world \<Rightarrow> (error + unit) \<times> world" where
  "process_message_try loaded w =
     (case loaded of Inl err \<Rightarrow> (Inl err, w) | Inr data \<Rightarrow>
      case py_get data ''Type'' (PStr []) of Inl err \<Rightarrow> (Inl err, w) | Inr ty \<Rightarrow>
      case py_lower ty of Inl err \<Rightarrow> (Inl err, w) | Inr msg_type \<Rightarrow>
      if msg_type = ''say'' then
        (case py_get data ''Payload'' (PStr []) of Inl err \<Rightarrow> (Inl err, w) | Inr payload \<Rightarrow>
         case py_get data ''Language'' (PStr ''English'') of Inl err \<Rightarrow> (Inl err, w) | Inr language \<Rightarrow>
         case py_get data ''Voice'' (PDict []) of Inl err \<Rightarrow> (Inl err, w) | Inr voice_info \<Rightarrow>
         case py_get voice_info ''Name'' (PStr ''None'') of Inl err \<Rightarrow> (Inl err, w) | Inr gender \<Rightarrow>
         case py_get data ''Rate'' (PInt DEFAULT_RATE) of Inl err \<Rightarrow> (Inl err, w) | Inr rate \<Rightarrow>
         case py_get data ''Speaker'' (PStr ''Unknown'') of Inl err \<Rightarrow> (Inl err, w) | Inr speaker \<Rightarrow>
         case announce language gender speaker rate payload w of
           (Inl err, w') \<Rightarrow> (Inl err, w')
         | (Inr done, w') \<Rightarrow> (Inr (), speak payload language gender rate DEFAULT_VOLUME w'))
      else if msg_type = ''cancel'' then (Inr (), cancel_speech (print Cancel w))
      else (Inr (), w))"

definition process_message :: "error + pyval \<Rightarrow> world \<Rightarrow> (error + unit) \<times> world" where
  "process_message loaded w =
     (case process_message_try loaded w of
        (Inl err, w') \<Rightarrow> (Inr (), print (MessageError err) w')
      | (Inr done, w') \<Rightarrow> (Inr (), w'))"

section \<open>Schedules\<close>

text \<open>
  The receive loop handles one message at a time; a started thread runs its body
  whenever it gets the lock; the engine finishes an utterance when it is through
  with it. A schedule is one order of these events.
\<close>

datatype event = Receive "error + pyval" | RunThread nat | Finished

fun exec_event :: "event \<Rightarrow> world \<Rightarrow> world" where
  "exec_event (Receive loaded) w = snd (process_message loaded w)"
| "exec_event (RunThread i) w =
     (if i < length (threads w)
      then snd (run (threads w ! i)
                  (w\<lparr>threads := take i (threads w) @ drop (Suc i) (threads w)\<rparr>))
      else w)"
| "exec_event Finished w = w\<lparr>speaking := tl (speaking w)\<rparr>"

fun exec :: "event list \<Rightarrow> world \<Rightarrow> world" where
  "exec [] w = w"
| "exec (ev # evs) w = exec evs (exec_event ev w)"

section \<open>Notions used to state the results\<close>

text \<open>
  \<open>trunc_div\<close> is division truncated towards zero. \<open>float_limit\<close> is the least
  distance from the baseline at which the quotient by 20 no longer fits a double:
  20 times the midpoint between the largest double and \<open>2 ^ 1024\<close>. \<open>double_trunc\<close> is
  the magnitude of \<^verbatim>\<open>int(n / d)\<close> for positive \<open>n\<close> and \<open>d\<close>.
\<close>

definition trunc_div :: "int \<Rightarrow> int \<Rightarrow> int" where
  "trunc_div a b = sgn a * sgn b * (\<bar>a\<bar> div \<bar>b\<bar>)"

definition float_limit :: int where
  "float_limit = 20 * (2 ^ 1024 - 2 ^ 970)"

definition double_trunc :: "nat \<Rightarrow> nat \<Rightarrow> nat" where
  "double_trunc n d =
     (let e = double_exponent n d; m = double_mantissa n d
      in if 0 \<le> e then m * 2 ^ nat e else m div 2 ^ nat (- e))"

text \<open>
  The rate formula as the specification words it, with \<open>round\<close> as rounding to the
  nearest integer: \<open>round_nearest a b\<close> is the nearest integer to \<open>a / b\<close> for
  positive \<open>b\<close> (halves go up).
\<close>

definition round_nearest :: "int \<Rightarrow> int \<Rightarrow> int" where
  "round_nearest a b = (2 * a + b) div (2 * b)"

definition NormalizeRate_spec :: "int \<Rightarrow> int" where
  "NormalizeRate_spec wpm = max (- 10) (min 10 (round_nearest (wpm - 200) 20))"

text \<open>
  Voice resolution as the specification words it: a language axis and a gender
  axis, normalised apart and then combined.
\<close>

definition resolve_identity :: "string \<Rightarrow> string \<Rightarrow> string" where
  "resolve_identity language genderHint =
     (if startswith (lower language) ''german'' then ''DE'' else ''EN'') @ ''_'' @
     (if lower genderHint = ''male'' then ''MALE''
      else if lower genderHint = ''female'' then ''FEMALE''
      else ''NEUTRAL'')"

text \<open>
  A process that has just started, on an engine that enumerates the given voices
  and has its default voice selected, with an output that encodes ASCII only; and
  three messages as \<^verbatim>\<open>json.loads\<close> returns them: a \<^verbatim>\<open>Say\<close> with a payload only, a
  \<^verbatim>\<open>Say\<close> with a language and a voice name, and the message of Scenario A.
\<close>

definition idle_engine :: "string list \<Rightarrow> world" where
  "idle_engine vs =
     \<lparr>Volume = 100, Rate = 0, Voice = ''system default'', GetVoices = vs,
      speaking = [], calls = [], printed = [], encodable = (\<lambda>v. False), threads = [],
      current_speak_thread = None\<rparr>"


definition say :: "string \<Rightarrow> pyval" where
  "say text = PDict [(''Type'', PStr ''Say''), (''Payload'', PStr text)]"

definition scenario_A :: pyval where
  "scenario_A =
     PDict [(''Type'', PStr ''Say''), (''Payload'', PStr ''Hello''),
            (''Language'', PStr ''English''), (''Voice'', PDict [(''Name'', PStr ''Male'')]),
            (''Rate'', PInt 300)]"

section \<open>Rounding to a double\<close>

lemma bit_length_bounds: "0 < n \<Longrightarrow> n < 2 ^ bit_length n \<and> 2 ^ bit_length n \<le> 2 * n"
proof (induction n rule: bit_length.induct)
  case (1 n)
  show ?case
  proof (cases "n div 2 = 0")
    case True
    with "1.prems" have "n = 1" by presburger
    then show ?thesis by (simp add: bit_length.simps)
  next
    case False
    then have pos: "0 < n div 2" by simp
    from "1.IH" [OF _ pos] "1.prems"
    have IH: "n div 2 < 2 ^ bit_length (n div 2)" "2 ^ bit_length (n div 2) \<le> 2 * (n div 2)"
      by simp_all
    have bl: "bit_length n = Suc (bit_length (n div 2))"
      using "1.prems" by (subst bit_length.simps) simp
    from IH show ?thesis unfolding bl by (simp, presburger)
  qed
qed

lemma floor_log2_lower:
  assumes "0 < n" "0 < d" "0 \<le> floor_log2 n d"
  shows "d * 2 ^ nat (floor_log2 n d) \<le> n"
proof -
  define k where "k = int (bit_length n) - int (bit_length d)"
  show ?thesis
  proof (cases "d * 2 ^ nat k \<le> n * 2 ^ nat (- k)")
    case True
    then have fl: "floor_log2 n d = k" by (simp add: floor_log2_def k_def)
    with assms(3) have "nat (- k) = 0" by simp
    with True fl show ?thesis by simp
  next
    case False
    then have fl: "floor_log2 n d = k - 1" by (simp add: floor_log2_def k_def)
    with assms(3) have k1: "1 \<le> k" by simp
    then have bn: "bit_length n = bit_length d + nat (k - 1) + 1" by (simp add: k_def)
    have "d * 2 ^ nat (k - 1) * 2 < 2 ^ bit_length d * 2 ^ nat (k - 1) * 2"
      using bit_length_bounds [OF assms(2)] by simp
    also have "\<dots> = 2 ^ bit_length n" unfolding bn by (simp add: power_add)
    also have "\<dots> \<le> 2 * n" using bit_length_bounds [OF assms(1)] by simp
    finally show ?thesis unfolding fl by simp
  qed
qed

lemma floor_log2_upper:
  assumes "0 < n" "0 < d"
  shows "n * 2 ^ nat (- (floor_log2 n d + 1)) < d * 2 ^ nat (floor_log2 n d + 1)"
proof -
  define k where "k = int (bit_length n) - int (bit_length d)"
  note bn = bit_length_bounds [OF assms(1)] and bd = bit_length_bounds [OF assms(2)]
  show ?thesis
  proof (cases "d * 2 ^ nat k \<le> n * 2 ^ nat (- k)")
    case False
    then have fl: "floor_log2 n d = k - 1" by (simp add: floor_log2_def k_def)
    from False show ?thesis unfolding fl by simp
  next
    case True
    then have fl: "floor_log2 n d = k" by (simp add: floor_log2_def k_def)
    show ?thesis
    proof (cases "0 \<le> k + 1")
      case True
      then have eq: "bit_length n + 1 = bit_length d + nat (k + 1)" by (simp add: k_def)
      have "2 * n < 2 ^ (bit_length n + 1)" using bn by simp
      also have "\<dots> = 2 ^ bit_length d * 2 ^ nat (k + 1)" unfolding eq by (simp add: power_add)
      also have "\<dots> \<le> 2 * d * 2 ^ nat (k + 1)" using bd by simp
      finally have "n < d * 2 ^ nat (k + 1)" by simp
      with True show ?thesis unfolding fl by simp
    next
      case False
      then have eq: "bit_length d = bit_length n + nat (- (k + 1)) + 1" by (simp add: k_def)
      have "n * 2 ^ nat (- (k + 1)) * 2 < 2 ^ bit_length n * 2 ^ nat (- (k + 1)) * 2"
        using bn by simp
      also have "\<dots> = 2 ^ bit_length d" unfolding eq by (simp add: power_add)
      also have "\<dots> \<le> 2 * d" using bd by simp
      finally have "n * 2 ^ nat (- (k + 1)) < d" by simp
      with False show ?thesis unfolding fl by simp
    qed
  qed
qed

lemma round_half_even_bounds:
  "n div d \<le> round_half_even n d \<and> round_half_even n d \<le> n div d + 1"
  by (simp add: round_half_even_def Let_def)

lemma round_half_even_trunc_ge:
  assumes "0 < d"
  shows "n div d \<le> round_half_even (n * 2 ^ s) d div 2 ^ s"
proof -
  have "n div d * d \<le> n" by simp
  then have "n div d * 2 ^ s * d \<le> n * 2 ^ s"
    by (metis mult.assoc mult.commute mult_le_mono1)
  then have "n div d * 2 ^ s \<le> (n * 2 ^ s) div d"
    using assms by (simp add: less_eq_div_iff_mult_less_eq)
  also have "\<dots> \<le> round_half_even (n * 2 ^ s) d"
    using round_half_even_bounds by blast
  finally show ?thesis
    by (simp add: less_eq_div_iff_mult_less_eq)
qed

lemma round_half_even_trunc_le:
  assumes "0 < d" "d < 2 ^ s"
  shows "round_half_even (n * 2 ^ s) d div 2 ^ s \<le> n div d"
proof -
  have "n < (n div d + 1) * d"
    using assms(1) by (metis Suc_eq_plus1 dividend_less_div_times mult.commute mult_Suc)
  then have "n + 1 \<le> (n div d + 1) * d" by simp
  then have "(n + 1) * 2 ^ s \<le> (n div d + 1) * d * 2 ^ s"
    by (rule mult_le_mono1)
  then have "n * 2 ^ s + d < (n div d + 1) * 2 ^ s * d"
    using assms(2) by (simp add: algebra_simps)
  then have "(n * 2 ^ s + d) div d < (n div d + 1) * 2 ^ s"
    using assms(1) by (simp add: div_less_iff_less_mult)
  moreover have "(n * 2 ^ s + d) div d = (n * 2 ^ s) div d + 1"
    using assms(1) by (subst div_add_self2) simp_all
  ultimately have "(n * 2 ^ s) div d + 1 < (n div d + 1) * 2 ^ s"
    by simp
  moreover have "round_half_even (n * 2 ^ s) d \<le> (n * 2 ^ s) div d + 1"
    using round_half_even_bounds by blast
  ultimately have "round_half_even (n * 2 ^ s) d < (n div d + 1) * 2 ^ s" by linarith
  then have "round_half_even (n * 2 ^ s) d div 2 ^ s < n div d + 1"
    by (simp add: div_less_iff_less_mult)
  then show ?thesis by simp
qed

lemma round_half_even_ge:
  assumes "0 < D" "even K" "2 * K * D \<le> 2 * n + D"
  shows "K \<le> round_half_even n D"
proof (cases "K \<le> n div D")
  case True
  then show ?thesis using round_half_even_bounds [of n D] by linarith
next
  case False
  define q r where "q = n div D" and "r = n mod D"
  have n: "n = q * D + r" by (simp add: q_def r_def)
  have r: "r < D" using assms(1) by (simp add: r_def)
  from False have qK: "q + 1 \<le> K" by (simp add: q_def)
  have "2 * K * D < (2 * q + 3) * D"
    using assms(3) n r by (simp add: algebra_simps)
  then have "2 * K < 2 * q + 3" by simp
  with qK have q: "K = q + 1" by linarith
  from assms(3) n have r2: "D \<le> 2 * r" unfolding q by (simp add: algebra_simps)
  from q assms(2) have "odd q" by auto
  with r2 have "round_half_even n D = q + 1"
    by (simp add: round_half_even_def Let_def q_def [symmetric] r_def [symmetric])
  with q show ?thesis by simp
qed

lemma round_half_even_less:
  assumes "0 < D" "2 * n + D < 2 * K * D"
  shows "round_half_even n D < K"
proof -
  define q r where "q = n div D" and "r = n mod D"
  have n: "n = q * D + r" by (simp add: q_def r_def)
  have "(2 * q + 1) * D \<le> 2 * n + D" using n by (simp add: algebra_simps)
  with assms(2) have "(2 * q + 1) * D < 2 * K * D" by linarith
  then have "2 * q + 1 < 2 * K" by (rule mult_less_cancel2 [THEN iffD1, THEN conjunct2])
  then have qK: "q + 1 \<le> K" by linarith
  show ?thesis
  proof (cases "q + 1 = K")
    case False
    with qK have "q + 1 < K" by simp
    then show ?thesis using round_half_even_bounds [of n D] by (simp add: q_def)
  next
    case True
    from assms(2) n have "2 * r < D" unfolding True [symmetric] by (simp add: algebra_simps)
    then have "round_half_even n D = q"
      by (simp add: round_half_even_def Let_def q_def [symmetric] r_def [symmetric])
    with True show ?thesis by simp
  qed
qed

section \<open>The quotient by 20\<close>

lemma double_exact_small:
  assumes "0 < n" "n < 20 * 2 ^ 48"
  shows "double_exponent n 20 < 0 \<and>
         double_mantissa n 20 div 2 ^ nat (- double_exponent n 20) = n div 20"
proof -
  define s where "s = nat (- double_exponent n 20)"
  have fl: "floor_log2 n 20 \<le> 47"
  proof (rule ccontr)
    assume "\<not> floor_log2 n 20 \<le> 47"
    then have ge: "48 \<le> floor_log2 n 20" by simp
    then have "(2::nat) ^ 48 \<le> 2 ^ nat (floor_log2 n 20)"
      by (intro power_increasing) simp_all
    then have "20 * (2::nat) ^ 48 \<le> 20 * 2 ^ nat (floor_log2 n 20)" by simp
    also have "\<dots> \<le> n" using floor_log2_lower [of n 20] assms(1) ge by simp
    finally show False using assms(2) by simp
  qed
  then have e: "double_exponent n 20 \<le> - 5" by (simp add: double_exponent_def)
  then have "5 \<le> s" by (simp add: s_def)
  then have "(2::nat) ^ 5 \<le> 2 ^ s" by (intro power_increasing) simp_all
  then have d: "(20::nat) < 2 ^ s" by simp
  have m: "double_mantissa n 20 = round_half_even (n * 2 ^ s) 20"
    using e by (simp add: double_mantissa_def Let_def s_def)
  have "round_half_even (n * 2 ^ s) 20 div 2 ^ s = n div 20"
    using round_half_even_trunc_le [of 20 s n] round_half_even_trunc_ge [of 20 n s] d
    by simp
  with e m show ?thesis by (simp add: s_def)
qed

lemma double_mantissa_ge:
  assumes "0 < n" "0 < d" "0 \<le> double_exponent n d"
  shows "2 ^ 52 \<le> double_mantissa n d"
proof -
  define e where "e = double_exponent n d"
  from assms(3) have fl: "floor_log2 n d = e + 52" "0 \<le> e"
    by (simp_all add: double_exponent_def e_def max_def split: if_splits)
  then have "nat (floor_log2 n d) = 52 + nat e" by simp
  with floor_log2_lower [OF assms(1,2)] fl have "d * 2 ^ (52 + nat e) \<le> n" by simp
  then have "2 ^ 52 * (d * 2 ^ nat e) \<le> n" by (simp add: power_add mult_ac)
  then have "2 ^ 52 \<le> n div (d * 2 ^ nat e)"
    using assms(2) by (simp add: less_eq_div_iff_mult_less_eq)
  also have "\<dots> \<le> round_half_even n (d * 2 ^ nat e)"
    using round_half_even_bounds by blast
  finally show ?thesis using fl(2) by (simp add: double_mantissa_def Let_def e_def)
qed

lemma double_trunc_small: "0 < n \<Longrightarrow> n < 20 * 2 ^ 48 \<Longrightarrow> double_trunc n 20 = n div 20"
  using double_exact_small [of n] by (simp add: double_trunc_def Let_def)

lemma double_trunc_big:
  assumes "220 \<le> n"
  shows "10 \<le> double_trunc n 20"
proof (cases "0 \<le> double_exponent n 20")
  case True
  with assms have "2 ^ 52 \<le> double_mantissa n 20" by (intro double_mantissa_ge) simp_all
  then have "2 ^ 52 * 1 \<le> double_mantissa n 20 * 2 ^ nat (double_exponent n 20)"
    by (intro mult_le_mono) simp_all
  with True show ?thesis by (simp add: double_trunc_def Let_def)
next
  case False
  have "11 \<le> n div 20" using assms by simp
  also have "\<dots> \<le> double_mantissa n 20 div 2 ^ nat (- double_exponent n 20)"
    using False round_half_even_trunc_ge [of 20 n]
    by (simp add: double_mantissa_def Let_def)
  finally show ?thesis using False by (simp add: double_trunc_def Let_def)
qed

lemma double_trunc_clamp: "0 < n \<Longrightarrow> min 10 (double_trunc n 20) = min 10 (n div 20)"
proof (cases "n < 220")
  case True
  assume "0 < n"
  with True have "double_trunc n 20 = n div 20" by (intro double_trunc_small) simp_all
  then show ?thesis by simp
next
  case False
  then have "10 \<le> double_trunc n 20" "10 \<le> n div 20"
    using double_trunc_big [of n] by simp_all
  then show ?thesis by simp
qed

lemma double_no_overflow:
  assumes "0 < n" "n < 20 * (2 ^ 1024 - 2 ^ 970)"
  shows "\<not> (0 \<le> double_exponent n 20 \<and>
            2 ^ 1024 \<le> double_mantissa n 20 * 2 ^ nat (double_exponent n 20))"
proof
  define e where "e = double_exponent n 20"
  define D where "D = 20 * (2::nat) ^ nat e"
  assume "0 \<le> double_exponent n 20 \<and>
          2 ^ 1024 \<le> double_mantissa n 20 * 2 ^ nat (double_exponent n 20)"
  then have e0: "0 \<le> e" and big: "2 ^ 1024 \<le> double_mantissa n 20 * 2 ^ nat e"
    by (simp_all add: e_def)
  from e0 have fl: "floor_log2 n 20 = e + 52"
    by (simp add: double_exponent_def e_def max_def split: if_splits)
  have m: "double_mantissa n 20 = round_half_even n D"
    using e0 by (simp add: double_mantissa_def Let_def e_def D_def)
  have lower: "D * 2 ^ 52 \<le> n"
    using floor_log2_lower [of n 20] assms(1) e0 fl
    by (simp add: D_def nat_add_distrib power_add mult_ac)
  have upper: "n < D * 2 ^ 53"
    using floor_log2_upper [of n 20] assms(1) e0 fl
    by (simp add: D_def nat_add_distrib power_add mult_ac)
  have e971: "e \<le> 971"
  proof (rule ccontr)
    assume "\<not> e \<le> 971"
    then have "972 \<le> nat e" by simp
    then have "(2::nat) ^ 972 \<le> 2 ^ nat e" by (intro power_increasing) simp_all
    then have "20 * (2::nat) ^ 972 * 2 ^ 52 \<le> D * 2 ^ 52" by (simp add: D_def)
    with lower assms(2) show False by simp
  qed
  show False
  proof (cases "e = 971")
    case True
    then have D: "D = 20 * 2 ^ 971" by (simp add: D_def)
    have "2 * n + D < 2 * 2 ^ 53 * D" using assms(2) unfolding D by simp
    then have "round_half_even n D < 2 ^ 53"
      by (intro round_half_even_less) (simp_all add: D)
    then have "round_half_even n D * 2 ^ 971 \<le> (2 ^ 53 - 1) * 2 ^ 971"
      by (intro mult_le_mono1) simp
    with big m True show False by simp
  next
    case False
    with e971 have "nat e \<le> 970" by simp
    then have p: "(2::nat) ^ nat e \<le> 2 ^ 970" by (intro power_increasing) simp_all
    have "n div D < 2 ^ 53" using upper by (simp add: div_less_iff_less_mult D_def)
    then have "round_half_even n D \<le> 2 ^ 53"
      using round_half_even_bounds [of n D] by linarith
    from this p have "round_half_even n D * 2 ^ nat e \<le> 2 ^ 53 * 2 ^ 970"
      by (rule mult_le_mono)
    with big m show False by simp
  qed
qed

lemma double_overflow:
  assumes "20 * (2 ^ 1024 - 2 ^ 970) \<le> n"
  shows "0 \<le> double_exponent n 20 \<and>
         2 ^ 1024 \<le> double_mantissa n 20 * 2 ^ nat (double_exponent n 20)"
proof -
  define e where "e = double_exponent n 20"
  define D where "D = 20 * (2::nat) ^ nat e"
  from assms have n0: "0 < n" by simp
  have fl: "1023 \<le> floor_log2 n 20"
  proof (rule ccontr)
    assume "\<not> 1023 \<le> floor_log2 n 20"
    then have le: "floor_log2 n 20 + 1 \<le> 1023" by simp
    then have "(2::nat) ^ nat (floor_log2 n 20 + 1) \<le> 2 ^ 1023"
      by (intro power_increasing) simp_all
    then have a: "20 * (2::nat) ^ nat (floor_log2 n 20 + 1) \<le> 20 * 2 ^ 1023" by simp
    have "n * 1 \<le> n * 2 ^ nat (- (floor_log2 n 20 + 1))"
      by (intro mult_le_mono) simp_all
    then have "n \<le> n * 2 ^ nat (- (floor_log2 n 20 + 1))" by simp
    also have "\<dots> < 20 * 2 ^ nat (floor_log2 n 20 + 1)"
      using floor_log2_upper [of n 20] n0 by simp
    also note a
    finally have "n < 20 * 2 ^ 1023" .
    with assms show False by simp
  qed
  then have e971: "971 \<le> e" and efl: "floor_log2 n 20 = e + 52"
    by (simp_all add: double_exponent_def e_def)
  then have e0: "0 \<le> e" by simp
  have m: "double_mantissa n 20 = round_half_even n D"
    using e0 by (simp add: double_mantissa_def Let_def e_def D_def)
  have "2 ^ 1024 \<le> round_half_even n D * 2 ^ nat e"
  proof (cases "e = 971")
    case True
    then have D: "D = 20 * 2 ^ 971" by (simp add: D_def)
    have "2 * 2 ^ 53 * D \<le> 2 * n + D" using assms unfolding D by simp
    then have "2 ^ 53 \<le> round_half_even n D"
      by (intro round_half_even_ge) (simp_all add: D)
    then have "2 ^ 53 * 2 ^ 971 \<le> round_half_even n D * 2 ^ 971"
      by (rule mult_le_mono1)
    with True show ?thesis by simp
  next
    case False
    with e971 have "972 \<le> nat e" by simp
    then have p: "(2::nat) ^ 972 \<le> 2 ^ nat e" by (intro power_increasing) simp_all
    have "2 ^ 52 \<le> double_mantissa n 20"
      using n0 e0 by (intro double_mantissa_ge) (simp_all add: e_def)
    with p have "2 ^ 52 * 2 ^ 972 \<le> double_mantissa n 20 * 2 ^ nat e"
      by (intro mult_le_mono)
    with m show ?thesis by simp
  qed
  with m e0 show ?thesis by (simp add: e_def)
qed

lemma nearest_double_overflow:
  assumes "float_limit \<le> \<bar>a\<bar>"
  shows "nearest_double a 20 = (if 0 < a then PosInf else NegInf)"
proof -
  define n where "n = nat \<bar>a\<bar>"
  have n: "20 * (2 ^ 1024 - 2 ^ 970) \<le> n"
    using assms by (simp add: float_limit_def le_nat_iff n_def)
  then have n0: "n \<noteq> 0" by simp
  from double_overflow [OF n] n0 show ?thesis
    unfolding nearest_double_def Let_def n_def by simp
qed

lemma trunc_signed:
  assumes "a \<noteq> 0"
  shows "(if 0 \<le> e then sgn a * int m * 2 ^ nat e
          else sgn (sgn a * int m) * (\<bar>sgn a * int m\<bar> div 2 ^ nat (- e))) =
         sgn a * int (if 0 \<le> e then m * 2 ^ nat e else m div 2 ^ nat (- e))"
proof (cases "m = 0")
  case True
  then show ?thesis by simp
next
  case False
  then have "sgn (sgn a * int m) = sgn a" "\<bar>sgn a * int m\<bar> = int m"
    using assms by (simp_all add: sgn_mult abs_mult)
  then show ?thesis by (simp add: zdiv_int)
qed

lemma nearest_double_finite:
  assumes "a \<noteq> 0" "\<bar>a\<bar> < float_limit"
  shows "int_of_float (nearest_double a 20) = Inr (sgn a * int (double_trunc (nat \<bar>a\<bar>) 20))"
proof -
  define n where "n = nat \<bar>a\<bar>"
  from assms have n: "0 < n" "n < 20 * (2 ^ 1024 - 2 ^ 970)"
    by (simp_all add: n_def float_limit_def nat_less_iff)
  from double_no_overflow [OF n] n(1)
  have nd: "nearest_double a 20 = Finite (sgn a * int (double_mantissa n 20)) (double_exponent n 20)"
    unfolding nearest_double_def Let_def n_def [symmetric] by simp
  show ?thesis
    unfolding nd n_def [symmetric] double_trunc_def Let_def int_of_float.simps
    using trunc_signed [OF assms(1)] by simp
qed

lemma clamp_signed:
  assumes "min 10 M = min 10 (N::nat)" "s = 1 \<or> s = - 1"
  shows "max (- 10) (min 10 (s * int M)) = max (- 10) (min 10 (s * int N))"
proof -
  from assms(1) have "(10 \<le> M \<and> 10 \<le> N) \<or> M = N"
    by (auto simp: min_def split: if_splits)
  with assms(2) show ?thesis by auto
qed

lemma rate_to_sapi_PInt:
  "rate_to_sapi (PInt wpm) =
     (if \<bar>wpm - 200\<bar> < float_limit
      then Inr (max (- 10) (min 10 (trunc_div (wpm - 200) 20)))
      else Inl OverflowError)"
proof -
  define a where "a = wpm - 200"
  have fl0: "0 < float_limit" by (simp add: float_limit_def)
  consider "a = 0" | "a \<noteq> 0" "\<bar>a\<bar> < float_limit" | "float_limit \<le> \<bar>a\<bar>" by linarith
  then have "(case int_truediv a 20 of Inl err \<Rightarrow> Inl err
              | Inr ratio \<Rightarrow> (case int_of_float ratio of Inl err \<Rightarrow> Inl err
                  | Inr sapi_rate \<Rightarrow> Inr (max (- 10) (min 10 sapi_rate)))) =
     (if \<bar>a\<bar> < float_limit
      then Inr (max (- 10) (min 10 (trunc_div a 20)))
      else Inl OverflowError)"
  proof cases
    case 1
    then show ?thesis
      using fl0 by (simp add: int_truediv_def nearest_double_def trunc_div_def)
  next
    case 2
    define n where "n = nat \<bar>a\<bar>"
    from 2 have n0: "0 < n" by (simp add: n_def)
    have fin: "int_of_float (nearest_double a 20) = Inr (sgn a * int (double_trunc n 20))"
      using nearest_double_finite [OF 2] by (simp add: n_def)
    then have "int_truediv a 20 = Inr (nearest_double a 20)"
      by (auto simp: int_truediv_def split: pyfloat.splits)
    moreover have "trunc_div a 20 = sgn a * int (n div 20)"
      by (simp add: trunc_div_def n_def zdiv_int)
    moreover have "max (- 10) (min 10 (sgn a * int (double_trunc n 20))) =
                   max (- 10) (min 10 (sgn a * int (n div 20)))"
      using double_trunc_clamp [OF n0] 2(1) by (intro clamp_signed) (auto simp: sgn_if)
    ultimately show ?thesis using 2(2) fin by simp
  next
    case 3
    then show ?thesis
      using nearest_double_overflow [OF 3] by (simp add: int_truediv_def)
  qed
  then show ?thesis by (simp add: rate_to_sapi_def a_def)
qed

section \<open>Results on the rate conversion\<close>

text \<open>
  C3, as amended. The conversion truncates towards zero, it does not round to the
  nearest integer: for every integer rate whose distance from the 200-wpm baseline
  is below \<open>float_limit\<close>, \<open>rate_to_sapi\<close> returns the quotient of that distance by
  20, truncated towards zero and clamped to \<open>[-10, 10]\<close>; in particular the rate
  \<open>200 + 20 * k\<close> gives \<open>k\<close> for every \<open>k\<close> from \<open>-10\<close> to \<open>10\<close>.
\<close>

theorem rate_to_sapi_truncates:
  "(\<bar>wpm - 200\<bar> < float_limit \<longrightarrow>
      rate_to_sapi (PInt wpm) = Inr (max (- 10) (min 10 (trunc_div (wpm - 200) 20)))) \<and>
   (\<bar>k\<bar> \<le> 10 \<longrightarrow> rate_to_sapi (PInt (200 + 20 * k)) = Inr k)"
proof (intro conjI impI)
  assume "\<bar>wpm - 200\<bar> < float_limit"
  then show "rate_to_sapi (PInt wpm) = Inr (max (- 10) (min 10 (trunc_div (wpm - 200) 20)))"
    by (simp add: rate_to_sapi_PInt)
next
  assume k: "\<bar>k\<bar> \<le> 10"
  have "\<bar>20 * k\<bar> < float_limit" using k by (simp add: float_limit_def abs_mult)
  moreover have "trunc_div (20 * k) 20 = k"
    by (simp add: trunc_div_def abs_mult sgn_mult mult_sgn_abs flip: abs_sgn)
  ultimately show "rate_to_sapi (PInt (200 + 20 * k)) = Inr k"
    using k by (simp add: rate_to_sapi_PInt)
qed

theorem rate_to_sapi_truncates_witness:
  "\<bar>215 - 200\<bar> < float_limit \<and> rate_to_sapi (PInt 215) = Inr 0 \<and>
   \<bar>- 3\<bar> \<le> (10::int) \<and> rate_to_sapi (PInt 140) = Inr (- 3)"
  using rate_to_sapi_truncates [of 215 "- 3"]
  by (simp add: float_limit_def trunc_div_def)

text \<open>
  C3, as stated, fails at 215 words per minute: the quotient \<open>15 / 20\<close> rounds to 1,
  the program returns 0.
\<close>

theorem rate_to_sapi_rounds_counterexample:
  "rate_to_sapi (PInt 215) = Inr 0 \<and> NormalizeRate_spec 215 = 1"
  by (simp add: rate_to_sapi_PInt float_limit_def trunc_div_def NormalizeRate_spec_def
      round_nearest_def)

text \<open>
  C4 at the failing input: for the integer rate \<open>10 ^ 400\<close> the conversion does not
  clamp to 10, it raises \<^verbatim>\<open>OverflowError\<close>.
\<close>

theorem rate_to_sapi_overflow:
  "rate_to_sapi (PInt (10 ^ 400)) = Inl OverflowError"
  by (simp add: rate_to_sapi_PInt float_limit_def)

text \<open>
  Within the range of the doubles the conversion is monotone and stays in
  \<open>[-10, 10]\<close>, and the four values the specification lists hold.
\<close>

lemma trunc_div_20: "trunc_div a 20 = (if 0 \<le> a then a div 20 else - ((- a) div 20))"
  by (simp add: trunc_div_def sgn_if)

lemma trunc_div_mono: "a \<le> b \<Longrightarrow> trunc_div a 20 \<le> trunc_div b 20"
  unfolding trunc_div_20 by (auto intro: zdiv_mono1) presburger

lemma rate_to_sapi_in_range:
  assumes "\<bar>a - 200\<bar> < float_limit" "\<bar>b - 200\<bar> < float_limit" "a \<le> b"
  shows "\<exists>x y. rate_to_sapi (PInt a) = Inr x \<and> rate_to_sapi (PInt b) = Inr y \<and>
           - 10 \<le> x \<and> x \<le> y \<and> y \<le> 10"
proof -
  from assms(3) have "trunc_div (a - 200) 20 \<le> trunc_div (b - 200) 20"
    by (intro trunc_div_mono) simp
  with assms(1,2) show ?thesis by (simp add: rate_to_sapi_PInt)
qed

lemma rate_to_sapi_values:
  "rate_to_sapi (PInt 200) = Inr 0" "rate_to_sapi (PInt 220) = Inr 1"
  "rate_to_sapi (PInt 0) = Inr (- 10)" "rate_to_sapi (PInt 10000) = Inr 10"
  by (simp_all add: rate_to_sapi_PInt float_limit_def trunc_div_def)

section \<open>Results on the program\<close>

lemmas program_defs =
  process_message_def process_message_try_def announce_def can_print_def ascii_char_def
  speak_def cancel_speech_def
  SpVoice_Speak_def print_def set_Volume_def set_Rate_def set_Voice_def
  select_voice_def VOICE_MAP_def EN_NEUTRAL_def EN_FEMALE_def EN_MALE_def
  DE_NEUTRAL_def DE_FEMALE_def DE_MALE_def DEFAULT_RATE_def DEFAULT_VOLUME_def
  lower_char_def Let_def

lemma rate_300: "rate_to_sapi (PInt 300) = Inr 5"
  by (simp add: rate_to_sapi_PInt float_limit_def trunc_div_def)

text \<open>
  C1 at the failing schedule. Two \<^verbatim>\<open>Say\<close> messages are handled back to back, and the
  thread started for the first takes \<^verbatim>\<open>voice_lock\<close> only after the second message
  has been handled. Each \<^verbatim>\<open>speak\<close> has issued its purge, but the engine receives
  the second speak call with no purge since the first one, and it holds both
  utterances.
\<close>

theorem second_speak_without_purge:
  "calls (exec [Receive (Inr (say ''one'')), Receive (Inr (say ''two'')), RunThread 0, RunThread 0]
            (idle_engine [])) =
     [Speak (PStr []) 3, Speak (PStr []) 3,
      SetVolume 100, SetRate 5, Speak (PStr ''one'') 1,
      SetVolume 100, SetRate 5, Speak (PStr ''two'') 1] \<and>
   speaking (exec [Receive (Inr (say ''one'')), Receive (Inr (say ''two'')), RunThread 0, RunThread 0]
            (idle_engine [])) = [PStr ''one'', PStr ''two'']"
  by (simp add: program_defs idle_engine_def say_def rate_300)

lemma can_print_same: "encodable w' = encodable w \<Longrightarrow> can_print w' v = can_print w v"
  by (simp add: can_print_def)

lemma print_fields_cases:
  "(\<exists>ls. print_fields fs w = (Inl UnicodeEncodeError, w\<lparr>printed := printed w @ ls\<rparr>)) \<or>
   (\<exists>ls. print_fields fs w = (Inr (), w\<lparr>printed := printed w @ ls\<rparr>))"
proof (induction fs arbitrary: w)
  case Nil
  have "w = w\<lparr>printed := printed w @ []\<rparr>" by simp
  then show ?case by (metis print_fields.simps(1))
next
  case (Cons f fs)
  obtain label v where f: "f = (label, v)" by (cases f)
  show ?case
  proof (cases "can_print w v")
    case False
    have "w = w\<lparr>printed := printed w @ []\<rparr>" by simp
    with False show ?thesis unfolding f by (metis print_fields.simps(2))
  next
    case True
    have eq: "(print (Labelled label v) w)\<lparr>printed := printed (print (Labelled label v) w) @ ls\<rparr> =
        w\<lparr>printed := printed w @ Labelled label v # ls\<rparr>" for ls
      by (simp add: print_def)
    from Cons.IH [of "print (Labelled label v) w"] True show ?thesis
      unfolding f eq by (simp del: print_fields.simps add: print_fields.simps(2)) blast
  qed
qed

lemma print_fields_ascii:
  "list_all ascii_only (map snd fs) \<Longrightarrow>
   print_fields fs w = (Inr (), w\<lparr>printed := printed w @ map (\<lambda>(label, v). Labelled label v) fs\<rparr>)"
  by (induction fs arbitrary: w) (auto simp: can_print_def print_def)

lemma announce_cases:
  obtains ls where
    "announce language gender speaker rate payload w =
       (Inl UnicodeEncodeError, w\<lparr>printed := printed w @ ls\<rparr>)"
  | ls where
    "announce language gender speaker rate payload w = (Inr (), w\<lparr>printed := printed w @ ls\<rparr>)"
proof -
  define fs where "fs = [(''Language:'', language), (''Gender:'', gender), (''Speaker:'', speaker),
              (''Rate:'', rate), (''Text:'', payload)]"
  have eq: "(print SayHeader w)\<lparr>printed := printed (print SayHeader w) @ ls\<rparr> =
        w\<lparr>printed := printed w @ SayHeader # ls\<rparr>" for ls
    by (simp add: print_def)
  from print_fields_cases [of fs "print SayHeader w"] show ?thesis
  proof (elim disjE exE)
    fix ls
    assume "print_fields fs (print SayHeader w) =
      (Inl UnicodeEncodeError, (print SayHeader w)\<lparr>printed := printed (print SayHeader w) @ ls\<rparr>)"
    then have "announce language gender speaker rate payload w =
       (Inl UnicodeEncodeError, w\<lparr>printed := printed w @ SayHeader # ls\<rparr>)"
      by (simp add: announce_def fs_def [symmetric] eq)
    then show ?thesis by (rule that(1))
  next
    fix ls
    assume "print_fields fs (print SayHeader w) =
      (Inr (), (print SayHeader w)\<lparr>printed := printed (print SayHeader w) @ ls\<rparr>)"
    then have "announce language gender speaker rate payload w =
       (Inr (), w\<lparr>printed := printed w @ SayHeader # ls @ [Blank]\<rparr>)"
      by (simp add: announce_def fs_def [symmetric] eq print_def)
    then show ?thesis by (rule that(2))
  qed
qed

text \<open>
  When each thread gets the lock before the next message is handled, the calls
  come as Scenario C of the specification lists them. In every schedule \<^verbatim>\<open>speak\<close>
  itself purges before it starts its thread.
\<close>

lemma speak_in_turn:
  "calls (exec [Receive (Inr (say ''one'')), RunThread 0, Receive (Inr (say ''two'')), RunThread 0]
            (idle_engine [])) =
     [Speak (PStr []) 3, SetVolume 100, SetRate 5, Speak (PStr ''one'') 1,
      Speak (PStr []) 3, SetVolume 100, SetRate 5, Speak (PStr ''two'') 1] \<and>
   speaking (exec [Receive (Inr (say ''one'')), RunThread 0, Receive (Inr (say ''two'')), RunThread 0]
            (idle_engine [])) = [PStr ''two'']"
  by (simp add: program_defs idle_engine_def say_def rate_300)

lemma speak_purges_first:
  "calls (speak text language gender rate volume w) = calls w @ [Speak (PStr []) 3] \<and>
   threads (speak text language gender rate volume w) =
     threads w @ [Thread text language gender rate volume] \<and>
   speaking (speak text language gender rate volume w) = []"
  by (simp add: speak_def cancel_speech_def SpVoice_Speak_def Let_def)

lemma resolve_identity_code:
  "resolve_identity language gender =
     (if startswith (lower language) ''german''
      then (if lower gender = ''male'' then ''DE_MALE''
            else if lower gender = ''female'' then ''DE_FEMALE''
            else ''DE_NEUTRAL'')
      else (if lower gender = ''male'' then ''EN_MALE''
            else if lower gender = ''female'' then ''EN_FEMALE''
            else ''EN_NEUTRAL''))"
  by (simp add: resolve_identity_def)

lemma select_voice_str:
  "select_voice (PStr language) (PStr gender) w =
     (case map_of VOICE_MAP (resolve_identity language gender) of
        None \<Rightarrow> (Inl KeyError, w)
      | Some voice_name \<Rightarrow>
          (case find_voice voice_name (GetVoices w) of
             Some v \<Rightarrow>
               (Inr (resolve_identity language gender, voice_name),
                print (SelectedVoice (resolve_identity language gender) voice_name)
                  (set_Voice v w))
           | None \<Rightarrow>
               (Inr (resolve_identity language gender, ''Default system voice''),
                print (VoiceNotFound voice_name) w)))"
  by (simp only: select_voice_def Let_def py_lower.simps sum.case flip: resolve_identity_code)

lemma resolve_identity_cases:
  "resolve_identity language gender \<in>
     {''EN_NEUTRAL'', ''EN_FEMALE'', ''EN_MALE'', ''DE_NEUTRAL'', ''DE_FEMALE'', ''DE_MALE''}"
  by (simp add: resolve_identity_def)

lemma VOICE_MAP_total:
  "\<exists>voice_name. map_of VOICE_MAP (resolve_identity language gender) = Some voice_name"
  using resolve_identity_cases [of language gender]
  by (auto simp: VOICE_MAP_def)

lemma find_voice_None:
  "find_voice voice_name vs = None \<longleftrightarrow>
     (\<forall>v\<in>set vs. \<not> contains (lower voice_name) (lower v))"
  by (induction vs) auto

text \<open>
  C5. Voice resolution has no error case on strings: for every language and every
  gender hint, \<open>select_voice\<close> returns, and the identity it returns is the one the two
  axes give (German when the lower-cased language starts with \<open>german\<close>, English
  otherwise; Male or Female when the lower-cased hint is \<open>male\<close> or \<open>female\<close>, Neutral
  otherwise), one of the six keys of \<open>VOICE_MAP\<close>.
\<close>

theorem select_voice_resolves:
  "(\<exists>name. fst (select_voice (PStr language) (PStr gender) w) =
       Inr (resolve_identity language gender, name)) \<and>
   resolve_identity language gender \<in> set (map fst VOICE_MAP)"
proof
  obtain voice_name where "map_of VOICE_MAP (resolve_identity language gender) = Some voice_name"
    using VOICE_MAP_total by blast
  then show "\<exists>name. fst (select_voice (PStr language) (PStr gender) w) =
       Inr (resolve_identity language gender, name)"
    by (cases "find_voice voice_name (GetVoices w)") (simp_all add: select_voice_str)
  show "resolve_identity language gender \<in> set (map fst VOICE_MAP)"
    using resolve_identity_cases [of language gender] by (auto simp: VOICE_MAP_def)
qed

theorem select_voice_resolves_witness:
  "resolve_identity ''German (Germany)'' ''FeMale'' = ''DE_FEMALE'' \<and>
   (\<exists>name. fst (select_voice (PStr ''German (Germany)'') (PStr ''FeMale'') (idle_engine [])) =
       Inr (''DE_FEMALE'', name))"
proof -
  have r: "resolve_identity ''German (Germany)'' ''FeMale'' = ''DE_FEMALE''"
    by (simp add: resolve_identity_def lower_char_def)
  from select_voice_resolves [of "''German (Germany)''" "''FeMale''" "idle_engine []"]
  show ?thesis unfolding r by simp
qed

text \<open>
  Without a match \<open>select_voice\<close> raises nothing: it returns the chosen identity
  with the name \<open>Default system voice\<close>, prints the warning and leaves the voice of
  the engine as it is, and the thread goes on to the speak call.
\<close>

lemma select_voice_fallback:
  assumes "map_of VOICE_MAP (resolve_identity language gender) = Some voice_name"
    and "\<forall>v\<in>set (GetVoices w). \<not> contains (lower voice_name) (lower v)"
  shows "select_voice (PStr language) (PStr gender) w =
           (Inr (resolve_identity language gender, ''Default system voice''),
            print (VoiceNotFound voice_name) w) \<and>
         (rate_to_sapi rate = Inr r \<longrightarrow>
            run (Thread text (PStr language) (PStr gender) rate volume) w =
              (Inr (),
               SpVoice_Speak text 1
                 (print (VoiceNotFound voice_name)
                    (set_Rate r (set_Volume (max 0 (min 100 volume)) w)))) \<and>
            Voice (snd (run (Thread text (PStr language) (PStr gender) rate volume) w)) =
              Voice w)"
proof -
  have none: "find_voice voice_name (GetVoices w') = None" if "GetVoices w' = GetVoices w" for w'
    using assms(2) that by (simp add: find_voice_None)
  have sel: "select_voice (PStr language) (PStr gender) w' =
           (Inr (resolve_identity language gender, ''Default system voice''),
            print (VoiceNotFound voice_name) w')" if "GetVoices w' = GetVoices w" for w'
    using assms(1) none [OF that] by (simp add: select_voice_str)
  show ?thesis
    by (simp add: sel set_Rate_def set_Volume_def Let_def SpVoice_Speak_def print_def)
qed

lemma select_voice_EN_MALE:
  "select_voice (PStr ''English'') (PStr ''Male'') w =
     (case find_voice EN_MALE (GetVoices w) of
        Some v \<Rightarrow> (Inr (''EN_MALE'', EN_MALE), print (SelectedVoice ''EN_MALE'' EN_MALE) (set_Voice v w))
      | None \<Rightarrow> (Inr (''EN_MALE'', ''Default system voice''), print (VoiceNotFound EN_MALE) w))"
proof -
  have "resolve_identity ''English'' ''Male'' = ''EN_MALE''"
    by (simp add: resolve_identity_def lower_char_def)
  then show ?thesis by (simp add: select_voice_str VOICE_MAP_def split: option.split)
qed

text \<open>
  C2, as amended. Handling the message of Scenario A and running the thread it
  starts gives the engine, after whatever it had received before: the purge, the
  volume 100, the rate 5, then the voice, set to the first enumerated voice whose
  description contains the display name of \<open>EN_MALE\<close> and only when there is one,
  then the asynchronous speak call with \<open>Hello\<close>. The rate 300 converts to 5 and
  the identity resolved is \<open>EN_MALE\<close>.
\<close>

theorem scenario_A_calls:
  "calls (exec [Receive (Inr scenario_A), RunThread (length (threads w))] w) =
     calls w @ [Speak (PStr []) 3, SetVolume 100, SetRate 5] @
     (case find_voice EN_MALE (GetVoices w) of Some v \<Rightarrow> [SetVoice v] | None \<Rightarrow> []) @
     [Speak (PStr ''Hello'') 1] \<and>
   rate_to_sapi (PInt 300) = Inr 5 \<and>
   (\<exists>name. fst (select_voice (PStr ''English'') (PStr ''Male'') w) = Inr (''EN_MALE'', name))"
proof (intro conjI)
  show "rate_to_sapi (PInt 300) = Inr 5" by (rule rate_300)
  show "\<exists>name. fst (select_voice (PStr ''English'') (PStr ''Male'') w) = Inr (''EN_MALE'', name)"
    by (cases "find_voice EN_MALE (GetVoices w)") (simp_all add: select_voice_EN_MALE)
  show "calls (exec [Receive (Inr scenario_A), RunThread (length (threads w))] w) =
     calls w @ [Speak (PStr []) 3, SetVolume 100, SetRate 5] @
     (case find_voice EN_MALE (GetVoices w) of Some v \<Rightarrow> [SetVoice v] | None \<Rightarrow> []) @
     [Speak (PStr ''Hello'') 1]"
    by (cases "find_voice EN_MALE (GetVoices w)")
      (simp_all add: scenario_A_def process_message_def process_message_try_def announce_def
        can_print_def ascii_char_def speak_def
        cancel_speech_def SpVoice_Speak_def print_def set_Volume_def set_Rate_def set_Voice_def
        DEFAULT_RATE_def DEFAULT_VOLUME_def lower_char_def Let_def rate_300
        select_voice_EN_MALE nth_append)
qed

theorem scenario_A_calls_witness:
  "calls (exec [Receive (Inr scenario_A), RunThread 0]
       (idle_engine [''Microsoft David Desktop'', ''Microsoft Richard - English (Canada)''])) =
     [Speak (PStr []) 3, SetVolume 100, SetRate 5,
      SetVoice ''Microsoft Richard - English (Canada)'', Speak (PStr ''Hello'') 1]"
  using scenario_A_calls
    [of "idle_engine [''Microsoft David Desktop'', ''Microsoft Richard - English (Canada)'']"]
  by (simp add: idle_engine_def EN_MALE_def lower_char_def)

text \<open>
  C2, as stated, fails on an engine that has no such voice: no voice is set.
\<close>

theorem scenario_A_no_voice_counterexample:
  "calls (exec [Receive (Inr scenario_A), RunThread 0] (idle_engine [''Microsoft David Desktop''])) =
     [Speak (PStr []) 3, SetVolume 100, SetRate 5, Speak (PStr ''Hello'') 1]"
  by (simp add: program_defs idle_engine_def scenario_A_def rate_300)


lemma select_voice_shape:
  obtains err where "select_voice language gender w = (Inl err, w)"
  | chosen voice_name v where
      "select_voice language gender w =
         (Inr (chosen, voice_name), print (SelectedVoice chosen voice_name) (set_Voice v w))"
  | chosen voice_name where
      "select_voice language gender w =
         (Inr (chosen, ''Default system voice''), print (VoiceNotFound voice_name) w)"
proof (cases "\<exists>l g. language = PStr l \<and> gender = PStr g")
  case False
  then have "select_voice language gender w = (Inl AttributeError, w)"
    by (cases language; cases gender) (simp_all add: select_voice_def)
  then show ?thesis by (rule that(1))
next
  case True
  then obtain l g where lg: "language = PStr l" "gender = PStr g" by blast
  show ?thesis
  proof (cases "map_of VOICE_MAP (resolve_identity l g)")
    case None
    then have "select_voice language gender w = (Inl KeyError, w)"
      by (simp add: lg select_voice_str)
    then show ?thesis by (rule that(1))
  next
    case (Some voice_name)
    show ?thesis
    proof (cases "find_voice voice_name (GetVoices w)")
      case None
      with Some show ?thesis using that(3) by (simp add: lg select_voice_str)
    next
      case (Some v)
      with \<open>map_of VOICE_MAP (resolve_identity l g) = Some voice_name\<close>
      show ?thesis using that(2) by (simp add: lg select_voice_str)
    qed
  qed
qed

lemma select_voice_keeps:
  "speaking (snd (select_voice language gender w)) = speaking w \<and>
   Volume (snd (select_voice language gender w)) = Volume w \<and>
   (\<exists>cs. calls (snd (select_voice language gender w)) = calls w @ cs)"
  by (cases rule: select_voice_shape [of language gender w])
    (simp_all add: print_def set_Voice_def)

lemma run_cases:
  obtains err where "rate_to_sapi rate = Inl err"
    "run (Thread text language gender rate volume) w =
       (Inl err, set_Volume (max 0 (min 100 volume)) w)"
  | r err w3 where "rate_to_sapi rate = Inr r"
    "select_voice language gender (set_Rate r (set_Volume (max 0 (min 100 volume)) w)) = (Inl err, w3)"
    "run (Thread text language gender rate volume) w = (Inl err, w3)"
  | r selected w3 where "rate_to_sapi rate = Inr r"
    "select_voice language gender (set_Rate r (set_Volume (max 0 (min 100 volume)) w)) = (Inr selected, w3)"
    "run (Thread text language gender rate volume) w = (Inr (), SpVoice_Speak text 1 w3)"
proof (cases "rate_to_sapi rate")
  case (Inl err)
  then show ?thesis using that(1) by (simp add: Let_def)
next
  case (Inr r)
  obtain res w3 where sel:
    "select_voice language gender (set_Rate r (set_Volume (max 0 (min 100 volume)) w)) = (res, w3)"
    by (cases "select_voice language gender (set_Rate r (set_Volume (max 0 (min 100 volume)) w))")
  show ?thesis
  proof (cases res)
    case (Inl err)
    with Inr sel show ?thesis using that(2) by (simp add: Let_def)
  next
    case (Inr selected)
    with \<open>rate_to_sapi rate = Inr r\<close> sel show ?thesis using that(3) by (simp add: Let_def)
  qed
qed

lemma run_empty_text:
  "speaking (snd (run (Thread (PStr []) language gender rate volume) w)) = speaking w"
proof (cases rule: run_cases [of rate "PStr []" language gender volume w])
  case (1 err)
  show ?thesis unfolding 1(2) by (simp add: set_Volume_def)
next
  case (2 r err w3)
  from select_voice_keeps [of language gender "set_Rate r (set_Volume (max 0 (min 100 volume)) w)"] 2(2)
  have "speaking w3 = speaking w" by (simp add: set_Rate_def set_Volume_def)
  then show ?thesis unfolding 2(3) by simp
next
  case (3 r selected w3)
  from select_voice_keeps [of language gender "set_Rate r (set_Volume (max 0 (min 100 volume)) w)"] 3(2)
  have "speaking w3 = speaking w" by (simp add: set_Rate_def set_Volume_def)
  then show ?thesis unfolding 3(3) by (simp add: SpVoice_Speak_def Let_def)
qed

lemma run_Volume:
  "Volume (snd (run (Thread text language gender rate volume) w)) = max 0 (min 100 volume) \<and>
   take (Suc (length (calls w))) (calls (snd (run (Thread text language gender rate volume) w))) =
     calls w @ [SetVolume (max 0 (min 100 volume))]"
proof (cases rule: run_cases [of rate "text" language gender volume w])
  case (1 err)
  show ?thesis unfolding 1(2) by (simp add: set_Volume_def)
next
  case (2 r err w3)
  from select_voice_keeps [of language gender "set_Rate r (set_Volume (max 0 (min 100 volume)) w)"] 2(2)
  obtain cs where "Volume w3 = max 0 (min 100 volume)"
    "calls w3 = calls w @ SetVolume (max 0 (min 100 volume)) # SetRate r # cs"
    by (auto simp: set_Rate_def set_Volume_def)
  then show ?thesis unfolding 2(3) by simp
next
  case (3 r selected w3)
  from select_voice_keeps [of language gender "set_Rate r (set_Volume (max 0 (min 100 volume)) w)"] 3(2)
  obtain cs where "Volume w3 = max 0 (min 100 volume)"
    "calls w3 = calls w @ SetVolume (max 0 (min 100 volume)) # SetRate r # cs"
    by (auto simp: set_Rate_def set_Volume_def)
  then show ?thesis unfolding 3(3) by (simp add: SpVoice_Speak_def Let_def)
qed

lemma py_get_error: "py_get v k dflt = Inl err \<Longrightarrow> err = AttributeError"
  by (cases v) simp_all

lemma process_message_try_shape:
  obtains err ls where
      "process_message_try loaded w = (Inl err, w\<lparr>printed := printed w @ ls\<rparr>)"
  | "process_message_try loaded w = (Inr (), w)"
  | "process_message_try loaded w = (Inr (), cancel_speech (print Cancel w))"
  | payload language gender rate ls where
      "process_message_try loaded w =
         (Inr (), speak payload language gender rate DEFAULT_VOLUME
                    (w\<lparr>printed := printed w @ ls\<rparr>))"
proof -
  define P where "P x \<longleftrightarrow>
       (\<exists>err ls. x = (Inl err, w\<lparr>printed := printed w @ ls\<rparr>)) \<or>
       x = (Inr (), w) \<or>
       x = (Inr (), cancel_speech (print Cancel w)) \<or>
       (\<exists>payload language gender rate ls. x =
           (Inr (), speak payload language gender rate DEFAULT_VOLUME
                      (w\<lparr>printed := printed w @ ls\<rparr>)))"
    for x :: "(error + unit) \<times> world"
  have w0: "w = w\<lparr>printed := printed w @ []\<rparr>" by simp
  have early: "P (Inl err, w)" for err
    unfolding P_def using w0 by blast
  have noop: "P (Inr (), w)" and cancel: "P (Inr (), cancel_speech (print Cancel w))"
    by (simp_all add: P_def)
  have said: "P (case announce language gender speaker rate payload w of
                   (Inl err, w') \<Rightarrow> (Inl err, w')
                 | (Inr done, w') \<Rightarrow>
                     (Inr (), speak payload language gender rate DEFAULT_VOLUME w'))"
    for language gender speaker rate payload
  proof (cases rule: announce_cases [of language gender speaker rate payload w])
    case (1 ls)
    show ?thesis unfolding 1 P_def by simp blast
  next
    case (2 ls)
    show ?thesis unfolding 2 P_def by simp blast
  qed
  have "P (process_message_try loaded w)"
    unfolding process_message_try_def
    by (simp add: early noop cancel said split: sum.split)
  then show ?thesis unfolding P_def using that by blast
qed

lemma process_message_shape:
  obtains err ls where
      "process_message loaded w = (Inr (), w\<lparr>printed := printed w @ ls @ [MessageError err]\<rparr>)"
  | "process_message loaded w = (Inr (), w)"
  | "process_message loaded w = (Inr (), cancel_speech (print Cancel w))"
  | payload language gender rate ls where
      "process_message loaded w =
         (Inr (), speak payload language gender rate DEFAULT_VOLUME
                    (w\<lparr>printed := printed w @ ls\<rparr>))"
proof (cases rule: process_message_try_shape [of loaded w])
  case (1 err ls)
  then have "process_message loaded w =
      (Inr (), w\<lparr>printed := printed w @ ls @ [MessageError err]\<rparr>)"
    by (simp add: process_message_def print_def)
  then show ?thesis by (rule that(1))
next
  case 2
  then show ?thesis using that(2) by (simp add: process_message_def)
next
  case 3
  then show ?thesis using that(3) by (simp add: process_message_def)
next
  case (4 payload language gender rate ls)
  then show ?thesis using that(4) by (simp add: process_message_def)
qed

text \<open>
  C7. The handler never lets a failure out. A message that \<^verbatim>\<open>json.loads\<close> rejects,
  or that decodes to something other than an object, is reported on the output and
  leaves everything else as it was; an empty object changes nothing; an object of
  type \<open>say\<close> without a payload either fails on the way (a voice entry that is no
  object, a field that the output cannot encode), which is reported on the output
  and leaves everything else as it was, or it purges the engine and speaks the
  empty text, which leaves the engine idle, before the thread has run and after.
\<close>

theorem malformed_messages_are_survived:
  "fst (process_message loaded w) = Inr () \<and>
   snd (process_message (Inl err) w) = print (MessageError err) w \<and>
   ((\<forall>items. data \<noteq> PDict items) \<longrightarrow>
      snd (process_message (Inr data) w) = print (MessageError AttributeError) w) \<and>
   snd (process_message (Inr (PDict [])) w) = w \<and>
   (map_of items ''Type'' = Some (PStr ty) \<and> lower ty = ''say'' \<and>
    map_of items ''Payload'' = None \<longrightarrow>
      (\<exists>e ls. snd (process_message (Inr (PDict items)) w) =
          w\<lparr>printed := printed w @ ls @ [MessageError e]\<rparr>) \<or>
      speaking (snd (process_message (Inr (PDict items)) w)) = [] \<and>
      speaking (exec [Receive (Inr (PDict items)), RunThread (length (threads w))] w) = [])"
proof (intro conjI impI)
  show "fst (process_message loaded w) = Inr ()"
    by (cases rule: process_message_shape [of loaded w]) simp_all
  show "snd (process_message (Inl err) w) = print (MessageError err) w"
    by (simp add: process_message_def process_message_try_def)
  show "snd (process_message (Inr (PDict [])) w) = w"
    by (simp add: process_message_def process_message_try_def)
next
  assume "\<forall>items. data \<noteq> PDict items"
  then have "py_get data ''Type'' (PStr []) = Inl AttributeError"
    by (cases data) simp_all
  then show "snd (process_message (Inr data) w) = print (MessageError AttributeError) w"
    by (simp add: process_message_def process_message_try_def)
next
  assume a: "map_of items ''Type'' = Some (PStr ty) \<and> lower ty = ''say'' \<and>
    map_of items ''Payload'' = None"
  define voice_info where
    "voice_info = (case map_of items ''Voice'' of Some v \<Rightarrow> v | None \<Rightarrow> PDict [])"
  define language where
    "language = (case map_of items ''Language'' of Some v \<Rightarrow> v | None \<Rightarrow> PStr ''English'')"
  define rate where
    "rate = (case map_of items ''Rate'' of Some v \<Rightarrow> v | None \<Rightarrow> PInt DEFAULT_RATE)"
  define speaker where
    "speaker = (case map_of items ''Speaker'' of Some v \<Rightarrow> v | None \<Rightarrow> PStr ''Unknown'')"
  have w0: "w\<lparr>printed := printed w @ [] @ [MessageError AttributeError]\<rparr> =
      print (MessageError AttributeError) w"
    by (simp add: print_def)
  show "(\<exists>e ls. snd (process_message (Inr (PDict items)) w) =
          w\<lparr>printed := printed w @ ls @ [MessageError e]\<rparr>) \<or>
      speaking (snd (process_message (Inr (PDict items)) w)) = [] \<and>
      speaking (exec [Receive (Inr (PDict items)), RunThread (length (threads w))] w) = []"
  proof (cases "py_get voice_info ''Name'' (PStr ''None'')")
    case (Inl e)
    then have "e = AttributeError" by (rule py_get_error)
    with Inl a have "snd (process_message (Inr (PDict items)) w) =
        print (MessageError AttributeError) w"
      by (simp add: process_message_def process_message_try_def voice_info_def)
    then show ?thesis using w0 by metis
  next
    case (Inr gender)
    with a have pmt: "process_message_try (Inr (PDict items)) w =
        (case announce language gender speaker rate (PStr []) w of
           (Inl err, w') \<Rightarrow> (Inl err, w')
         | (Inr done, w') \<Rightarrow>
             (Inr (), speak (PStr []) language gender rate DEFAULT_VOLUME w'))"
      unfolding language_def rate_def speaker_def
      by (simp add: process_message_try_def voice_info_def)
    show ?thesis
    proof (cases rule: announce_cases [of language gender speaker rate "PStr []" w])
      case (1 ls)
      have "snd (process_message (Inr (PDict items)) w) =
          w\<lparr>printed := printed w @ ls @ [MessageError UnicodeEncodeError]\<rparr>"
        by (simp add: process_message_def pmt 1 print_def)
      then show ?thesis by blast
    next
      case (2 ls)
      have pm: "snd (process_message (Inr (PDict items)) w) =
          speak (PStr []) language gender rate DEFAULT_VOLUME (w\<lparr>printed := printed w @ ls\<rparr>)"
        by (simp add: process_message_def pmt 2)
      have "speaking (snd (process_message (Inr (PDict items)) w)) = []"
        unfolding pm using speak_purges_first by blast
      moreover have
        "speaking (exec [Receive (Inr (PDict items)), RunThread (length (threads w))] w) = []"
        using speak_purges_first
          [of "PStr []" language gender rate DEFAULT_VOLUME "w\<lparr>printed := printed w @ ls\<rparr>"]
        by (simp add: pm run_empty_text del: run.simps)
      ultimately show ?thesis by blast
    qed
  qed
qed

theorem malformed_messages_are_survived_witness:
  "fst (process_message (Inr (PStr ''hello'')) (idle_engine [])) = Inr () \<and>
   snd (process_message (Inl JSONDecodeError) (idle_engine [])) =
     print (MessageError JSONDecodeError) (idle_engine []) \<and>
   snd (process_message (Inr (PStr ''hello'')) (idle_engine [])) =
     print (MessageError AttributeError) (idle_engine []) \<and>
   snd (process_message (Inr (PDict [])) (idle_engine [])) = idle_engine [] \<and>
   speaking (snd (process_message (Inr (PDict [(''Type'', PStr ''say'')])) (idle_engine []))) = [] \<and>
   speaking (exec [Receive (Inr (PDict [(''Type'', PStr ''say'')])), RunThread 0] (idle_engine [])) = []"
proof -
  have ne: "\<not> (\<exists>e ls. snd (process_message (Inr (PDict [(''Type'', PStr ''say'')])) (idle_engine [])) =
      (idle_engine [])\<lparr>printed := printed (idle_engine []) @ ls @ [MessageError e]\<rparr>)"
    by (simp add: program_defs idle_engine_def)
  have th: "threads (idle_engine []) = []" by (simp add: idle_engine_def)
  from malformed_messages_are_survived
    [of "Inr (PStr ''hello'')" "idle_engine []" JSONDecodeError "PStr ''hello''"
      "[(''Type'', PStr ''say'')]" "''say''"] ne
  show ?thesis by (simp add: lower_char_def th)
qed

text \<open>
  A field that the output cannot encode, here a lone surrogate as the language
  while the engine is speaking: the handler reports the error and sends nothing
  to the engine, which goes on speaking.
\<close>

lemma unprintable_field_is_reported:
  "snd (process_message
          (Inr (PDict [(''Type'', PStr ''say''), (''Language'', PStr [CHR 0xED, CHR 0xA0, CHR 0x80])]))
          ((idle_engine [])\<lparr>speaking := [PStr ''a long text'']\<rparr>)) =
     (idle_engine [])\<lparr>speaking := [PStr ''a long text''],
                       printed := [SayHeader, MessageError UnicodeEncodeError]\<rparr>"
  by (simp add: program_defs idle_engine_def)

text \<open>
  C8. \<open>cancel_speech\<close> issues one purge call and leaves the engine idle; on an idle
  engine it changes nothing but the record of the calls, and a second cancel right
  after the first changes nothing but that record either.
\<close>

theorem cancel_idempotent:
  "calls (cancel_speech w) = calls w @ [Speak (PStr []) 3] \<and>
   speaking (cancel_speech w) = [] \<and>
   (speaking w = [] \<longrightarrow> cancel_speech w = w\<lparr>calls := calls w @ [Speak (PStr []) 3]\<rparr>) \<and>
   cancel_speech (cancel_speech w) =
     (cancel_speech w)\<lparr>calls := calls (cancel_speech w) @ [Speak (PStr []) 3]\<rparr>"
  by (simp add: cancel_speech_def SpVoice_Speak_def)

theorem cancel_idempotent_witness:
  "speaking (idle_engine []) = [] \<and>
   cancel_speech (idle_engine []) = (idle_engine [])\<lparr>calls := [Speak (PStr []) 3]\<rparr> \<and>
   cancel_speech (cancel_speech (idle_engine [])) =
     (idle_engine [])\<lparr>calls := [Speak (PStr []) 3, Speak (PStr []) 3]\<rparr>"
  using cancel_idempotent [of "idle_engine []"]
  by (simp add: idle_engine_def cancel_speech_def SpVoice_Speak_def)

lemma process_message_threads:
  "threads (snd (process_message loaded w)) = threads w \<or>
   (\<exists>payload language gender rate.
      threads (snd (process_message loaded w)) =
        threads w @ [Thread payload language gender rate DEFAULT_VOLUME])"
  by (cases rule: process_message_shape [of loaded w])
    (simp_all add: print_def cancel_speech_def SpVoice_Speak_def speak_def Let_def)

text \<open>
  C9. Whatever the message, the handler keeps the threads that were there, and a
  thread it starts sets the volume to 100 as its first call to the engine and
  leaves it at 100, whether or not the rest of the thread fails.
\<close>

theorem volume_is_always_100:
  "take (length (threads w)) (threads (snd (process_message loaded w))) = threads w \<and>
   (\<forall>t\<in>set (drop (length (threads w)) (threads (snd (process_message loaded w)))).
      Volume (snd (run t w')) = 100 \<and>
      take (Suc (length (calls w'))) (calls (snd (run t w'))) = calls w' @ [SetVolume 100])"
  using process_message_threads [of loaded w] run_Volume [of _ _ _ _ DEFAULT_VOLUME w']
  by (auto simp: DEFAULT_VOLUME_def simp del: run.simps)

theorem volume_is_always_100_witness:
  "threads (snd (process_message (Inr (PDict [(''Type'', PStr ''Say''), (''Volume'', PInt 5)]))
      (idle_engine []))) =
     [Thread (PStr []) (PStr ''English'') (PStr ''None'') (PInt 300) 100] \<and>
   Volume (snd (run (Thread (PStr []) (PStr ''English'') (PStr ''None'') (PInt 300) 100)
      ((idle_engine [])\<lparr>Volume := 5\<rparr>))) = 100"
proof -
  have t: "threads (snd (process_message (Inr (PDict [(''Type'', PStr ''Say''), (''Volume'', PInt 5)]))
      (idle_engine []))) =
     [Thread (PStr []) (PStr ''English'') (PStr ''None'') (PInt 300) 100]"
    by (simp add: program_defs idle_engine_def)
  have th: "threads (idle_engine []) = []" by (simp add: idle_engine_def)
  from volume_is_always_100
    [of "idle_engine []" "Inr (PDict [(''Type'', PStr ''Say''), (''Volume'', PInt 5)])"
      "(idle_engine [])\<lparr>Volume := 5\<rparr>"]
  show ?thesis unfolding t th by (simp del: run.simps)
qed



end
